theory Spec2Isabelle
  imports Main
begin

section \<open>The interval run-length encoder of \<^verbatim>\<open>coad/compress_interval.pyx\<close>\<close>

text \<open>
  The source under verification:
  \<^verbatim>\<open>
  def compress_interval(interval_data):
      row  = interval_data.pop(0)
      final_data = [[row[0], 1, row[1], row[2]]]
      last_value = row[2]
      last_intid = row[1]
      for row in interval_data:
          if row[2] != last_value:
              final_data[-1][2] = last_intid
              last_value = row[2]
              final_data.append([row[0], row[1], row[1], last_value])
          last_intid = row[1]
      final_data[-1][2] = last_intid
      return final_data
  \<close>
\<close>

subsection \<open>Data\<close>

text \<open>
  An input row is read at the positions 0, 1 and 2: a category id, a time index and a
  value. The time index is an integer (the first run starts at the integer literal 1);
  the category and the value are only copied and, for the value, compared with
  \<^verbatim>\<open>!=\<close>, so their types stay parameters. The comparison is read as the negation of
  equality on the value type, as it is for Python's integers, strings and floats other
  than NaN. A row of the result has four positions: category id, start index, end index
  and value.
\<close>

type_synonym ('c, 'v) sample = "'c \<times> int \<times> 'v"

type_synonym ('c, 'v) run = "'c \<times> int \<times> int \<times> 'v"

abbreviation category_id :: "('c, 'v) sample \<Rightarrow> 'c" where
  "category_id row \<equiv> fst row"

abbreviation time_index :: "('c, 'v) sample \<Rightarrow> int" where
  "time_index row \<equiv> fst (snd row)"

abbreviation sample_value :: "('c, 'v) sample \<Rightarrow> 'v" where
  "sample_value row \<equiv> snd (snd row)"

abbreviation run_category :: "('c, 'v) run \<Rightarrow> 'c" where
  "run_category r \<equiv> fst r"

abbreviation start_index :: "('c, 'v) run \<Rightarrow> int" where
  "start_index r \<equiv> fst (snd r)"

abbreviation end_index :: "('c, 'v) run \<Rightarrow> int" where
  "end_index r \<equiv> fst (snd (snd r))"

abbreviation run_value :: "('c, 'v) run \<Rightarrow> 'v" where
  "run_value r \<equiv> snd (snd (snd r))"

text \<open>The one exception the function can raise: \<^verbatim>\<open>list.pop\<close> on an empty list.\<close>

datatype error = IndexError

subsection \<open>Operations on Python lists\<close>

text \<open>
  \<^verbatim>\<open>xs.pop(0)\<close> removes and returns the first element of the caller's list object; on an
  empty list it raises and leaves the list as it is. The second component is the list
  after the call.
\<close>

definition pop0 :: "'a list \<Rightarrow> (error + 'a) \<times> 'a list" where
  "pop0 xs = (case xs of [] \<Rightarrow> (Inl IndexError, []) | x # rest \<Rightarrow> (Inr x, rest))"

text \<open>
  \<^verbatim>\<open>final_data[-1][2] = e\<close> overwrites the end index of the last run. The list
  \<^verbatim>\<open>final_data\<close> holds a run from its creation on and only grows (lemma
  \<open>for_loop_final_data_nonempty\<close> below), so the read of its last element never fails;
  on the empty list, which the function never builds, the update changes nothing.
\<close>

definition set_last_end :: "int \<Rightarrow> ('c, 'v) run list \<Rightarrow> ('c, 'v) run list" where
  "set_last_end e fd =
     fd[length fd - 1 := (run_category (last fd), start_index (last fd), e, run_value (last fd))]"

subsection \<open>The scan\<close>

text \<open>The local variables that the loop reads and writes.\<close>

record ('c, 'v) scan_state =
  final_data :: "('c, 'v) run list"
  last_value :: 'v
  last_intid :: int

text \<open>One iteration of the \<^verbatim>\<open>for\<close> loop.\<close>

definition loop_body :: "('c, 'v) scan_state \<Rightarrow> ('c, 'v) sample \<Rightarrow> ('c, 'v) scan_state" where
  "loop_body st row =
     (let st1 =
        (if sample_value row \<noteq> last_value st
         then st\<lparr>final_data :=
                   set_last_end (last_intid st) (final_data st)
                     @ [(category_id row, time_index row, time_index row, sample_value row)],
                 last_value := sample_value row\<rparr>
         else st)
      in st1\<lparr>last_intid := time_index row\<rparr>)"

fun for_loop :: "('c, 'v) scan_state \<Rightarrow> ('c, 'v) sample list \<Rightarrow> ('c, 'v) scan_state" where
  "for_loop st [] = st"
| "for_loop st (row # rows) = for_loop (loop_body st row) rows"

text \<open>
  The function: its result (the exception or the returned list of runs) and the
  caller's list object after the call.
\<close>

definition compress_interval ::
  "('c, 'v) sample list \<Rightarrow> (error + ('c, 'v) run list) \<times> ('c, 'v) sample list" where
  "compress_interval interval_data =
     (case pop0 interval_data of
        (Inl e, interval_data') \<Rightarrow> (Inl e, interval_data')
      | (Inr row, interval_data') \<Rightarrow>
          (let st0 = \<lparr>final_data = [(category_id row, 1, time_index row, sample_value row)],
                      last_value = sample_value row,
                      last_intid = time_index row\<rparr>;
               st = for_loop st0 interval_data'
           in (Inr (set_last_end (last_intid st) (final_data st)), interval_data')))"

section \<open>Notions of the specification\<close>

text \<open>
  The pairs of neighbouring samples (previous, current) at which the value changes: the
  places where "the value differs from the previous sample's value".
\<close>

definition value_changes ::
  "('c, 'v) sample list \<Rightarrow> (('c, 'v) sample \<times> ('c, 'v) sample) list" where
  "value_changes xs = filter (\<lambda>(p, x). sample_value x \<noteq> sample_value p) (zip xs (tl xs))"

text \<open>
  A block is a list of consecutive samples. The run that describes a block: the
  category and time index of its first sample, the time index of its last sample and
  the value of its first sample.
\<close>

definition run_of :: "('c, 'v) sample list \<Rightarrow> ('c, 'v) run" where
  "run_of b = (category_id (hd b), time_index (hd b), time_index (last b), sample_value (hd b))"

text \<open>A block of equal value: it is not empty and all its samples carry one value.\<close>

definition constant_block :: "('c, 'v) sample list \<Rightarrow> bool" where
  "constant_block b = (b \<noteq> [] \<and> list_all (\<lambda>x. sample_value x = sample_value (hd b)) b)"

text \<open>
  The cut of a sequence into its maximal contiguous ranges of equal value: the blocks
  in order make up the sequence, each block is of equal value, and two neighbouring
  blocks differ in value (so no block can be extended).
\<close>

definition maximal_split :: "('c, 'v) sample list \<Rightarrow> ('c, 'v) sample list list \<Rightarrow> bool" where
  "maximal_split xs bs =
     (concat bs = xs \<and> list_all constant_block bs
        \<and> distinct_adj (map (\<lambda>b. sample_value (hd b)) bs))"

text \<open>The cut computed: every sequence has exactly one (lemmas below).\<close>

fun value_blocks :: "('c, 'v) sample list \<Rightarrow> ('c, 'v) sample list list" where
  "value_blocks [] = []"
| "value_blocks [x] = [[x]]"
| "value_blocks (x # y # ys) =
     (if sample_value y \<noteq> sample_value x then [x] # value_blocks (y # ys)
      else (case value_blocks (y # ys) of [] \<Rightarrow> [[x]] | b # bs \<Rightarrow> (x # b) # bs))"

section \<open>The scan as a recursion over the open run\<close>

text \<open>
  An auxiliary view of the loop, used in the proofs only: the run being built is kept
  apart from the runs already closed, with the last time index seen as its end index.
  Lemma \<open>for_loop_scan\<close> shows that the loop of the source computes it.
\<close>

fun scan_runs :: "('c, 'v) run \<Rightarrow> ('c, 'v) sample list \<Rightarrow> ('c, 'v) run list" where
  "scan_runs r [] = [r]"
| "scan_runs r (row # rows) =
     (if sample_value row \<noteq> run_value r
      then (run_category r, start_index r, end_index r, run_value r)
             # scan_runs (category_id row, time_index row, time_index row, sample_value row) rows
      else scan_runs (run_category r, start_index r, time_index row, run_value r) rows)"

section \<open>Evaluation\<close>

lemmas compress_interval_eval =
  compress_interval_def pop0_def loop_body_def set_last_end_def Let_def

section \<open>The loop and the recursion agree\<close>

lemma set_last_end_snoc:
  "set_last_end e (done @ [(c, s, e0, v)]) = done @ [(c, s, e, v)]"
  by (simp add: set_last_end_def)

lemma for_loop_final_data_nonempty:
  "final_data st \<noteq> [] \<Longrightarrow> final_data (for_loop st rows) \<noteq> []"
  by (induction rows arbitrary: st) (simp_all add: loop_body_def Let_def)

lemma for_loop_scan:
  "set_last_end
     (last_intid (for_loop \<lparr>final_data = done @ [(c, s, e0, v)], last_value = v, last_intid = e\<rparr> rows))
     (final_data (for_loop \<lparr>final_data = done @ [(c, s, e0, v)], last_value = v, last_intid = e\<rparr> rows))
   = done @ scan_runs (c, s, e, v) rows"
proof (induction rows arbitrary: "done" c s e0 v e)
  case Nil
  show ?case by (simp add: set_last_end_snoc)
next
  case (Cons row rows)
  show ?case
  proof (cases "sample_value row = v")
    case True
    then show ?thesis
      using Cons.IH [of "done" c s e0 v "time_index row"]
      by (simp add: loop_body_def Let_def)
  next
    case False
    then show ?thesis
      using Cons.IH [of "done @ [(c, s, e, v)]" "category_id row" "time_index row" "time_index row"
          "sample_value row" "time_index row"]
      by (simp add: loop_body_def Let_def set_last_end_snoc)
  qed
qed

lemma compress_interval_Cons:
  "compress_interval (row # rest) =
     (Inr (scan_runs (category_id row, 1, time_index row, sample_value row) rest), rest)"
  using for_loop_scan [of "[]" "category_id row" 1 "time_index row" "sample_value row" "time_index row" rest]
  by (simp add: compress_interval_def pop0_def Let_def)

lemma compress_interval_scan:
  assumes "interval_data \<noteq> []"
  obtains row rest where "interval_data = row # rest"
    "fst (compress_interval interval_data)
       = Inr (scan_runs (category_id row, 1, time_index row, sample_value row) rest)"
  using assms by (cases interval_data) (simp_all add: compress_interval_Cons)

section \<open>Value changes along the scan\<close>

lemma value_changes_Cons_Cons:
  "value_changes (p # x # xs) =
     (if sample_value x \<noteq> sample_value p then [(p, x)] else []) @ value_changes (x # xs)"
  by (simp add: value_changes_def)

lemma value_changes_single: "value_changes [p] = []"
  by (simp add: value_changes_def)

lemma value_changes_distinct_adj:
  "distinct_adj (map sample_value xs) \<Longrightarrow> value_changes xs = zip xs (tl xs)"
proof (induction xs rule: induct_list012)
  case 1 show ?case by (simp add: value_changes_def)
next
  case (2 x) show ?case by (simp add: value_changes_def)
next
  case (3 x y zs)
  then show ?case by (auto simp add: value_changes_def)
qed

lemma scan_nonempty: "scan_runs r rows \<noteq> []"
  by (induction rows arbitrary: r) simp_all

lemma scan_hd:
  "run_category (hd (scan_runs r rows)) = run_category r \<and>
   start_index (hd (scan_runs r rows)) = start_index r \<and>
   run_value (hd (scan_runs r rows)) = run_value r"
  by (induction rows arbitrary: r) simp_all

lemma scan_tl_opens:
  "sample_value p = run_value r \<Longrightarrow>
   map (\<lambda>r. (run_category r, start_index r, run_value r)) (tl (scan_runs r rows))
     = map snd (value_changes (p # rows))"
proof (induction rows arbitrary: r p)
  case Nil
  show ?case by (simp add: value_changes_single)
next
  case (Cons row rows)
  show ?case
  proof (cases "sample_value row = run_value r")
    case True
    then show ?thesis
      using Cons.IH [of row "(run_category r, start_index r, time_index row, run_value r)"] Cons.prems
      by (simp add: value_changes_Cons_Cons)
  next
    case False
    have "scan_runs (category_id row, time_index row, time_index row, sample_value row) rows \<noteq> []"
      by (rule scan_nonempty)
    then obtain r' rs' where sc:
      "scan_runs (category_id row, time_index row, time_index row, sample_value row) rows = r' # rs'"
      by (cases "scan_runs (category_id row, time_index row, time_index row, sample_value row) rows") auto
    have hd: "run_category r' = category_id row \<and> start_index r' = time_index row
                \<and> run_value r' = sample_value row"
      using scan_hd [of "(category_id row, time_index row, time_index row, sample_value row)" rows] sc
      by simp
    have tl: "map (\<lambda>r. (run_category r, start_index r, run_value r)) rs'
                = map snd (value_changes (row # rows))"
      using Cons.IH [of row "(category_id row, time_index row, time_index row, sample_value row)"] sc
      by simp
    show ?thesis
      using False Cons.prems hd tl sc by (simp add: value_changes_Cons_Cons)
  qed
qed

lemma scan_ends:
  "sample_value p = run_value r \<Longrightarrow> time_index p = end_index r \<Longrightarrow>
   map end_index (scan_runs r rows)
     = map (\<lambda>(p, x). time_index p) (value_changes (p # rows)) @ [time_index (last (p # rows))]"
proof (induction rows arbitrary: r p)
  case Nil
  then show ?case by (simp add: value_changes_single)
next
  case (Cons row rows)
  show ?case
  proof (cases "sample_value row = run_value r")
    case True
    then show ?thesis
      using Cons.IH [of row "(run_category r, start_index r, time_index row, run_value r)"] Cons.prems
      by (simp add: value_changes_Cons_Cons)
  next
    case False
    then show ?thesis
      using Cons.IH [of row "(category_id row, time_index row, time_index row, sample_value row)"] Cons.prems
      by (simp add: value_changes_Cons_Cons)
  qed
qed

section \<open>Maximal blocks of equal value\<close>

text \<open>Every sequence has a maximal cut, and only one.\<close>

lemma value_blocks_hd:
  "hd (hd (value_blocks (x # xs))) = x \<and> value_blocks (x # xs) \<noteq> [] \<and> hd (value_blocks (x # xs)) \<noteq> []"
  by (induction "x # xs" arbitrary: x xs rule: value_blocks.induct)
     (auto split: list.splits)

lemma maximal_split_value_blocks: "maximal_split xs (value_blocks xs)"
proof (induction xs rule: value_blocks.induct)
  case 1
  show ?case by (simp add: maximal_split_def)
next
  case (2 x)
  show ?case by (simp add: maximal_split_def constant_block_def)
next
  case (3 x y ys)
  obtain b bs where vb: "value_blocks (y # ys) = b # bs" "b \<noteq> []" "hd b = y"
    using value_blocks_hd [of y ys] by (cases "value_blocks (y # ys)") auto
  show ?case
  proof (cases "sample_value y \<noteq> sample_value x")
    case True
    then show ?thesis
      using 3(1) vb by (simp add: maximal_split_def constant_block_def)
  next
    case False
    then show ?thesis
      using 3(2) vb by (cases bs) (auto simp add: maximal_split_def constant_block_def)
  qed
qed

lemma concat_blocks_Nil:
  "list_all constant_block bs \<Longrightarrow> concat bs = [] \<Longrightarrow> bs = []"
  by (cases bs) (auto simp: constant_block_def)

lemma maximal_split_unique:
  "maximal_split xs bs \<Longrightarrow> bs = value_blocks xs"
proof (induction xs arbitrary: bs rule: value_blocks.induct)
  case 1
  then show ?case
    by (cases bs) (auto simp: maximal_split_def constant_block_def)
next
  case (2 x)
  then obtain a list where bs: "bs = a # list" "a \<noteq> []" "a @ concat list = [x]"
    "list_all constant_block list"
    by (cases bs) (auto simp: maximal_split_def constant_block_def)
  then have "a = [x] \<and> concat list = []"
    by (cases a) auto
  then show ?case
    using bs concat_blocks_Nil [of list] by simp
next
  case (3 x y ys)
  from "3.prems" obtain b bs' where bs: "bs = b # bs'"
    by (cases bs) (auto simp: maximal_split_def)
  from "3.prems" bs obtain b' where b: "b = x # b'"
    by (cases b) (auto simp: maximal_split_def constant_block_def)
  show ?case
  proof (cases b')
    case Nil
    with "3.prems" bs b obtain c cs where bs': "bs' = c # cs"
      by (cases bs') (auto simp: maximal_split_def)
    with "3.prems" bs b Nil have c: "hd c = y"
      by (cases c) (auto simp: maximal_split_def constant_block_def)
    with "3.prems" bs b Nil bs' have ne: "sample_value y \<noteq> sample_value x"
      by (auto simp: maximal_split_def)
    have "maximal_split (y # ys) bs'"
      using "3.prems" bs b Nil bs' by (auto simp: maximal_split_def)
    then show ?thesis
      using "3.IH"(1) [OF ne] ne bs b Nil by simp
  next
    case (Cons y' b'')
    with "3.prems" bs b have y': "y' = y" "sample_value y = sample_value x"
      by (auto simp: maximal_split_def constant_block_def)
    have "maximal_split (y # ys) ((y # b'') # bs')"
      using "3.prems" bs b Cons y' by (cases bs') (auto simp: maximal_split_def constant_block_def)
    then have "value_blocks (y # ys) = (y # b'') # bs'"
      using "3.IH"(2) [of "(y # b'') # bs'"] y' by simp
    then show ?thesis
      using y' bs b Cons by simp
  qed
qed

lemma maximal_split_Cons:
  assumes "interval_data \<noteq> []" and "maximal_split interval_data bs"
  obtains b bs' where "bs = b # bs'" "constant_block b" "interval_data = hd b # (tl b @ concat bs')"
proof -
  from assms obtain b bs' where bs: "bs = b # bs'"
    by (cases bs) (auto simp: maximal_split_def)
  with assms have b: "constant_block b" by (simp add: maximal_split_def)
  then have "b = hd b # tl b" by (simp add: constant_block_def)
  then have "interval_data = hd b # (tl b @ concat bs')"
    using assms(2) bs by (metis append_Cons concat.simps(2) maximal_split_def)
  with bs b show ?thesis by (rule that)
qed

lemma hd_block_in_concat:
  "b \<in> set bs \<Longrightarrow> b \<noteq> [] \<Longrightarrow> hd b \<in> set (concat bs)"
  by (auto intro: bexI [of _ b])

text \<open>The scan closes one run per block.\<close>

lemma scan_same_value:
  "list_all (\<lambda>x. sample_value x = v) b \<Longrightarrow>
   scan_runs (c, s, e, v) (b @ ys) = scan_runs (c, s, (if b = [] then e else time_index (last b)), v) ys"
  by (induction b arbitrary: e) simp_all

lemma scan_block:
  assumes "constant_block b"
  shows "scan_runs (category_id (hd b), s, time_index (hd b), sample_value (hd b)) (tl b @ ys)
           = scan_runs (category_id (hd b), s, time_index (last b), sample_value (hd b)) ys"
proof -
  obtain x b' where b: "b = x # b'"
    using assms by (cases b) (simp_all add: constant_block_def)
  have same: "list_all (\<lambda>y. sample_value y = sample_value x) b'"
    using assms b by (simp add: constant_block_def)
  have "(if b' = [] then time_index x else time_index (last b')) = time_index (last (x # b'))"
    by simp
  then show ?thesis
    using scan_same_value [OF same, of "category_id x" s "time_index x" ys] b
    by (simp only: list.sel)
qed

lemma scan_blocks:
  "list_all constant_block (b # bs) \<Longrightarrow>
   distinct_adj (map (\<lambda>b. sample_value (hd b)) (b # bs)) \<Longrightarrow>
   scan_runs (category_id (hd b), s, time_index (hd b), sample_value (hd b)) (tl b @ concat bs)
     = (category_id (hd b), s, time_index (last b), sample_value (hd b)) # map run_of bs"
proof (induction bs arbitrary: b s)
  case Nil
  then have "constant_block b" by simp
  then show ?case
    using scan_block [of b s "[]"] by simp
next
  case (Cons b' bs)
  from Cons.prems have b: "constant_block b" by simp
  from Cons.prems obtain y ys where b': "b' = y # ys" "sample_value y \<noteq> sample_value (hd b)"
    by (cases b') (auto simp: constant_block_def)
  from Cons.prems have rest: "list_all constant_block (b' # bs)"
    "distinct_adj (map (\<lambda>b. sample_value (hd b)) (b' # bs))"
    by simp_all
  have 1: "scan_runs (category_id (hd b), s, time_index (hd b), sample_value (hd b)) (tl b @ concat (b' # bs))
      = scan_runs (category_id (hd b), s, time_index (last b), sample_value (hd b)) (y # (ys @ concat bs))"
    using scan_block [OF b, of s "concat (b' # bs)"] b'(1) by simp
  have 2: "scan_runs (category_id (hd b), s, time_index (last b), sample_value (hd b)) (y # (ys @ concat bs))
      = (category_id (hd b), s, time_index (last b), sample_value (hd b))
          # scan_runs (category_id y, time_index y, time_index y, sample_value y) (ys @ concat bs)"
    using b'(2) by simp
  have 3: "scan_runs (category_id y, time_index y, time_index y, sample_value y) (ys @ concat bs)
      = map run_of (b' # bs)"
    using Cons.IH [OF rest, of "time_index (hd b')"] b'(1) by (simp add: run_of_def)
  show ?case
    unfolding 1 2 3 ..
qed

lemma compress_interval_split:
  assumes "interval_data \<noteq> []" and "maximal_split interval_data bs"
  shows "fst (compress_interval interval_data) =
           Inr ((category_id (hd interval_data), 1, time_index (last (hd bs)),
                 sample_value (hd interval_data)) # map run_of (tl bs))"
proof -
  from assms obtain b bs' where bs: "bs = b # bs'" "constant_block b"
    and xs: "interval_data = hd b # (tl b @ concat bs')"
    by (rule maximal_split_Cons)
  have "list_all constant_block (b # bs')" "distinct_adj (map (\<lambda>b. sample_value (hd b)) (b # bs'))"
    using assms(2) bs by (simp_all add: maximal_split_def)
  then have "scan_runs (category_id (hd b), 1, time_index (hd b), sample_value (hd b)) (tl b @ concat bs')
      = (category_id (hd b), 1, time_index (last b), sample_value (hd b)) # map run_of bs'"
    by (rule scan_blocks)
  then have "fst (compress_interval (hd b # (tl b @ concat bs')))
      = Inr ((category_id (hd b), 1, time_index (last b), sample_value (hd b)) # map run_of bs')"
    by (simp add: compress_interval_Cons)
  then show ?thesis
    using xs bs(1) by (metis list.sel(1) list.sel(3))
qed

section \<open>The runs of the result\<close>

text \<open>
  C1 (as the code has it). Cut a non-empty input into its maximal contiguous blocks of
  equal value. The function returns one run per block, in order. Every run after the
  first is the run of its block: the category and the time index of the block's first
  sample, the time index of its last sample, and the value. The first run carries the
  category and the value of the first sample and ends at the time index of the last
  sample of the first block, but its start index is the literal 1. Hence the result is
  the list of the blocks' runs exactly when the first sample's time index is 1. No
  order of the time indices is needed.
\<close>

theorem compress_interval_maximal_runs:
  assumes "interval_data \<noteq> []" and "maximal_split interval_data bs"
  shows "fst (compress_interval interval_data) =
           Inr ((category_id (hd interval_data), 1, time_index (last (hd bs)),
                 sample_value (hd interval_data)) # map run_of (tl bs))
         \<and> (fst (compress_interval interval_data) = Inr (map run_of bs))
             = (time_index (hd interval_data) = 1)"
proof -
  from assms obtain b bs' where bs: "bs = b # bs'" "constant_block b"
    and xs: "interval_data = hd b # (tl b @ concat bs')"
    by (rule maximal_split_Cons)
  have hd: "hd interval_data = hd b"
    using xs by (metis list.sel(1))
  have res: "fst (compress_interval interval_data) =
           Inr ((category_id (hd interval_data), 1, time_index (last (hd bs)),
                 sample_value (hd interval_data)) # map run_of (tl bs))"
    using assms by (rule compress_interval_split)
  have "(fst (compress_interval interval_data) = Inr (map run_of bs))
             = (time_index (hd interval_data) = 1)"
    unfolding res using bs(1) hd by (auto simp: run_of_def)
  with res show ?thesis by simp
qed

text \<open>The statement at an input whose time indices start at 1.\<close>

theorem compress_interval_maximal_runs_witness:
  "[(0::int, 1, 5::int), (0, 2, 5), (0, 3, 7), (0, 4, 7), (0, 5, 7)] \<noteq> []
   \<and> maximal_split [(0::int, 1, 5::int), (0, 2, 5), (0, 3, 7), (0, 4, 7), (0, 5, 7)]
        [[(0, 1, 5), (0, 2, 5)], [(0, 3, 7), (0, 4, 7), (0, 5, 7)]]
   \<and> fst (compress_interval [(0::int, 1, 5::int), (0, 2, 5), (0, 3, 7), (0, 4, 7), (0, 5, 7)])
       = Inr [(0, 1, 2, 5), (0, 3, 5, 7)]"
  using compress_interval_maximal_runs
    [of "[(0::int, 1, 5::int), (0, 2, 5), (0, 3, 7), (0, 4, 7), (0, 5, 7)]"
        "[[(0, 1, 5), (0, 2, 5)], [(0, 3, 7), (0, 4, 7), (0, 5, 7)]]"]
  by (simp add: maximal_split_def constant_block_def run_of_def)

text \<open>
  C1 (as the specification states it) fails: on the two samples \<open>(0,3,9)\<close>,
  \<open>(0,4,9)\<close>, one block of value 9, the only run returned is \<open>(0,1,4,9)\<close>. It is
  not the run of the block, and its start index 1 is not the time index 3 of the first
  sample of the run.
\<close>

theorem compress_interval_maximal_runs_counterexample:
  "maximal_split [(0::int, 3, 9::int), (0, 4, 9)] [[(0, 3, 9), (0, 4, 9)]]
   \<and> fst (compress_interval [(0::int, 3, 9::int), (0, 4, 9)]) = Inr [(0, 1, 4, 9)]
   \<and> fst (compress_interval [(0::int, 3, 9::int), (0, 4, 9)])
        \<noteq> Inr (map run_of [[(0, 3, 9), (0, 4, 9)]])
   \<and> start_index (hd [(0::int, 1::int, 4::int, 9::int)]) \<noteq> time_index (0::int, 3, 9::int)"
  by (simp add: compress_interval_eval maximal_split_def constant_block_def run_of_def)

subsection \<open>The example of the specification\<close>

text \<open>
  C2 (as the code has it). On the input \<open>[(0,0,5),(0,1,5),(0,2,7),(0,3,7),(0,4,7)]\<close>
  the function returns the two runs \<open>[(0,1,1,5),(0,2,4,7)]\<close>: the first run starts at
  the literal 1, not at the time index 0 of the first sample.
\<close>

theorem compress_interval_example:
  "fst (compress_interval [(0::int, 0, 5::int), (0, 1, 5), (0, 2, 7), (0, 3, 7), (0, 4, 7)])
     = Inr [(0, 1, 1, 5), (0, 2, 4, 7)]"
  by (simp add: compress_interval_eval)

text \<open>
  C2 (as the specification states it) fails: the result is not
  \<open>[(0,0,1,5),(0,2,4,7)]\<close>.
\<close>

theorem compress_interval_example_counterexample:
  "fst (compress_interval [(0::int, 0, 5::int), (0, 1, 5), (0, 2, 7), (0, 3, 7), (0, 4, 7)])
     \<noteq> Inr [(0, 0, 1, 5), (0, 2, 4, 7)]"
  by (simp add: compress_interval_eval)

section \<open>The empty input\<close>

text \<open>
  C3. On the empty list the function fails: \<^verbatim>\<open>pop(0)\<close> raises (Python's
  \<^verbatim>\<open>IndexError\<close>, the failure that the specification names EmptyInputError), no
  list of runs is returned, and the caller's list is still empty.
\<close>

theorem compress_interval_empty:
  "compress_interval ([] :: ('c, 'v) sample list) = (Inl IndexError, [])"
  by (simp add: compress_interval_def pop0_def)

section \<open>The caller's list\<close>

text \<open>
  C4 (as the code has it). The function is not pure. After the call the caller's list
  is the input without its first element, the other elements unchanged and in order;
  it is the list of before the call only when that list was empty (where the call
  fails).
\<close>

theorem compress_interval_caller_list:
  "snd (compress_interval interval_data) = drop 1 interval_data
   \<and> (snd (compress_interval interval_data) = interval_data) = (interval_data = [])"
proof (cases interval_data)
  case Nil
  then show ?thesis by (simp add: compress_interval_def pop0_def)
next
  case (Cons row rest)
  then show ?thesis by (simp add: compress_interval_Cons)
qed

text \<open>
  C4 (as the specification states it) fails: after the call on a list of two samples
  the caller's list is not the list of before.
\<close>

theorem compress_interval_caller_list_counterexample:
  "snd (compress_interval [(0::int, 1, 5::int), (0, 2, 7)]) \<noteq> [(0, 1, 5), (0, 2, 7)]"
  by (simp add: compress_interval_eval)

text \<open>
  C10. On a non-empty list the call returns, and afterwards the caller's list is the
  list of before without its first element: the remaining elements, unchanged and in
  their order.
\<close>

theorem compress_interval_pops_first:
  assumes "interval_data \<noteq> []"
  shows "snd (compress_interval interval_data) = tl interval_data
         \<and> (\<exists>rs. fst (compress_interval interval_data) = Inr rs)"
  using assms by (cases interval_data) (simp_all add: compress_interval_Cons)

text \<open>The statement at a list of three samples.\<close>

theorem compress_interval_pops_first_witness:
  "[(0::int, 1, 5::int), (0, 2, 5), (0, 3, 7)] \<noteq> []
   \<and> snd (compress_interval [(0::int, 1, 5::int), (0, 2, 5), (0, 3, 7)]) = [(0, 2, 5), (0, 3, 7)]"
  using compress_interval_pops_first [of "[(0::int, 1, 5::int), (0, 2, 5), (0, 3, 7)]"]
  by simp

section \<open>The forward scan\<close>

text \<open>
  C5. On a non-empty input the function returns a non-empty list of runs. The first run
  has the category and the value of the first sample. The runs after it are, in order,
  exactly the samples whose value differs from the value of the sample before: each
  such sample opens a run with its own category, time index (as start index) and
  value. The end indices are, in order, the time indices of the samples just before
  each change of value, and at last the time index of the last sample of the input,
  which closes the final run; so each run ends at the last sample of its maximal block
  of equal value, the last consecutive sample that shares the run's value.
\<close>

theorem compress_interval_forward_scan:
  assumes "interval_data \<noteq> []"
  shows "\<exists>rs. fst (compress_interval interval_data) = Inr rs \<and> rs \<noteq> []
      \<and> run_category (hd rs) = category_id (hd interval_data)
      \<and> run_value (hd rs) = sample_value (hd interval_data)
      \<and> map (\<lambda>r. (run_category r, start_index r, run_value r)) (tl rs)
           = map snd (value_changes interval_data)
      \<and> map end_index rs
           = map (\<lambda>(p, x). time_index p) (value_changes interval_data)
               @ [time_index (last interval_data)]
      \<and> map end_index rs = map (\<lambda>b. time_index (last b)) (value_blocks interval_data)
      \<and> end_index (last rs) = time_index (last interval_data)"
proof -
  from assms obtain row rest where xs: "interval_data = row # rest"
    and res: "fst (compress_interval interval_data)
       = Inr (scan_runs (category_id row, 1, time_index row, sample_value row) rest)"
    by (rule compress_interval_scan)
  let ?r = "(category_id row, 1::int, time_index row, sample_value row)"
  let ?rs = "scan_runs ?r rest"
  have ne: "?rs \<noteq> []" by (rule scan_nonempty)
  have hd: "run_category (hd ?rs) = category_id row" "run_value (hd ?rs) = sample_value row"
    using scan_hd [of ?r rest] by simp_all
  have opens: "map (\<lambda>r. (run_category r, start_index r, run_value r)) (tl ?rs)
                 = map snd (value_changes (row # rest))"
    by (rule scan_tl_opens) simp
  have ends: "map end_index ?rs
                = map (\<lambda>(p, x). time_index p) (value_changes (row # rest))
                    @ [time_index (last (row # rest))]"
    by (rule scan_ends) simp_all
  have "end_index (last ?rs) = last (map end_index ?rs)"
    using ne by (simp add: last_map)
  also have "\<dots> = time_index (last (row # rest))"
    unfolding ends by simp
  finally have final: "end_index (last ?rs) = time_index (last (row # rest))" .
  have split: "maximal_split interval_data (value_blocks interval_data)"
    by (rule maximal_split_value_blocks)
  with assms obtain b bs' where bs: "value_blocks interval_data = b # bs'"
    by (rule maximal_split_Cons)
  have "Inr ?rs = Inr ((category_id (hd interval_data), 1,
                        time_index (last (hd (value_blocks interval_data))),
                        sample_value (hd interval_data))
                       # map run_of (tl (value_blocks interval_data)))"
    using compress_interval_split [OF assms split] res by simp
  then have blocks: "map end_index ?rs
                       = map (\<lambda>b. time_index (last b)) (value_blocks (row # rest))"
    unfolding bs xs [symmetric] by (simp add: run_of_def)
  show ?thesis
    using res ne hd opens ends blocks final unfolding xs by (intro exI [of _ ?rs]) simp
qed

text \<open>The statement at an input with two changes of value.\<close>

theorem compress_interval_forward_scan_witness:
  "[(0::int, 1, 5::int), (0, 2, 5), (0, 3, 7), (0, 4, 7), (0, 5, 5)] \<noteq> []
   \<and> (\<exists>rs. fst (compress_interval [(0::int, 1, 5::int), (0, 2, 5), (0, 3, 7), (0, 4, 7), (0, 5, 5)])
              = Inr rs
          \<and> run_category (hd rs) = 0 \<and> run_value (hd rs) = 5
          \<and> map (\<lambda>r. (run_category r, start_index r, run_value r)) (tl rs) = [(0, 3, 7), (0, 5, 5)]
          \<and> map end_index rs = [2, 4, 5])"
  using compress_interval_forward_scan
    [of "[(0::int, 1, 5::int), (0, 2, 5), (0, 3, 7), (0, 4, 7), (0, 5, 5)]"]
  by (auto simp add: value_changes_def)

text \<open>
  C6. When no two consecutive samples of a non-empty input have the same value, the
  function returns as many runs as the input has samples.
\<close>

theorem compress_interval_no_repeats:
  assumes "interval_data \<noteq> []" and "distinct_adj (map sample_value interval_data)"
  shows "\<exists>rs. fst (compress_interval interval_data) = Inr rs
           \<and> length rs = length interval_data"
proof -
  from assms(1) obtain row rest where xs: "interval_data = row # rest"
    and res: "fst (compress_interval interval_data)
       = Inr (scan_runs (category_id row, 1, time_index row, sample_value row) rest)"
    by (rule compress_interval_scan)
  let ?rs = "scan_runs (category_id row, 1, time_index row, sample_value row) rest"
  have "map end_index ?rs
          = map (\<lambda>(p, x). time_index p) (value_changes (row # rest))
              @ [time_index (last (row # rest))]"
    by (rule scan_ends) simp_all
  then have "length (map end_index ?rs) = length (value_changes (row # rest)) + 1"
    by simp
  also have "value_changes (row # rest) = zip (row # rest) (tl (row # rest))"
    using assms(2) unfolding xs by (rule value_changes_distinct_adj)
  finally have "length ?rs = length (row # rest)"
    by simp
  with res show ?thesis
    unfolding xs by blast
qed

text \<open>The statement at an input of four samples without repeats.\<close>

theorem compress_interval_no_repeats_witness:
  "[(0::int, 1, 5::int), (0, 2, 7), (0, 3, 5), (0, 4, 6)] \<noteq> []
   \<and> distinct_adj (map sample_value [(0::int, 1, 5::int), (0, 2, 7), (0, 3, 5), (0, 4, 6)])
   \<and> (\<exists>rs. fst (compress_interval [(0::int, 1, 5::int), (0, 2, 7), (0, 3, 5), (0, 4, 6)]) = Inr rs
          \<and> length rs = 4)"
  using compress_interval_no_repeats [of "[(0::int, 1, 5::int), (0, 2, 7), (0, 3, 5), (0, 4, 6)]"]
  by (simp add: eval_nat_numeral)

text \<open>
  C9. On a non-empty input the first run of the result starts at the constant 1,
  whatever the time index of the first sample; the start indices of the runs after
  it are, in order, the time indices of the samples at which the value changes, each
  being the sample that opened the run.
\<close>

theorem compress_interval_first_start_is_one:
  assumes "interval_data \<noteq> []"
  shows "\<exists>rs. fst (compress_interval interval_data) = Inr rs \<and> rs \<noteq> []
           \<and> start_index (hd rs) = 1
           \<and> map start_index (tl rs)
                = map (\<lambda>(p, x). time_index x) (value_changes interval_data)"
proof -
  from assms obtain row rest where xs: "interval_data = row # rest"
    and res: "fst (compress_interval interval_data)
       = Inr (scan_runs (category_id row, 1, time_index row, sample_value row) rest)"
    by (rule compress_interval_scan)
  let ?r = "(category_id row, 1::int, time_index row, sample_value row)"
  let ?rs = "scan_runs ?r rest"
  have ne: "?rs \<noteq> []" by (rule scan_nonempty)
  have hd: "start_index (hd ?rs) = 1"
    using scan_hd [of ?r rest] by simp
  have "map (\<lambda>r. (run_category r, start_index r, run_value r)) (tl ?rs)
          = map snd (value_changes (row # rest))"
    by (rule scan_tl_opens) simp
  then have "map (\<lambda>t. fst (snd t)) (map (\<lambda>r. (run_category r, start_index r, run_value r)) (tl ?rs))
          = map (\<lambda>t. fst (snd t)) (map snd (value_changes (row # rest)))"
    by (rule arg_cong)
  then have starts: "map start_index (tl ?rs)
          = map (\<lambda>(p, x). time_index x) (value_changes (row # rest))"
    by (simp add: comp_def case_prod_unfold)
  show ?thesis
    using res ne hd starts unfolding xs by (intro exI [of _ ?rs]) simp
qed

text \<open>The statement at an input whose first time index is 7.\<close>

theorem compress_interval_first_start_is_one_witness:
  "[(0::int, 7, 5::int), (0, 8, 5), (0, 9, 6), (0, 10, 6), (0, 11, 5)] \<noteq> []
   \<and> (\<exists>rs. fst (compress_interval [(0::int, 7, 5::int), (0, 8, 5), (0, 9, 6), (0, 10, 6), (0, 11, 5)])
              = Inr rs
          \<and> start_index (hd rs) = 1 \<and> map start_index (tl rs) = [9, 11])"
  using compress_interval_first_start_is_one
    [of "[(0::int, 7, 5::int), (0, 8, 5), (0, 9, 6), (0, 10, 6), (0, 11, 5)]"]
  by (auto simp add: value_changes_def)

section \<open>The category of a run\<close>

text \<open>
  C7 (as the code has it). The scan compares values only, so the runs follow the
  maximal blocks of equal value whatever the categories are. The category recorded on
  a run is the category of the first sample of its block. When all samples of the
  input have one category, every run has it.
\<close>

theorem compress_interval_run_category:
  assumes "interval_data \<noteq> []" and "maximal_split interval_data bs"
  shows "\<exists>rs. fst (compress_interval interval_data) = Inr rs
           \<and> map run_category rs = map (\<lambda>b. category_id (hd b)) bs
           \<and> (list_all (\<lambda>x. category_id x = c) interval_data
                \<longrightarrow> list_all (\<lambda>r. run_category r = c) rs)"
proof -
  from assms obtain b bs' where bs: "bs = b # bs'" "constant_block b"
    and xs: "interval_data = hd b # (tl b @ concat bs')"
    by (rule maximal_split_Cons)
  let ?rs = "(category_id (hd interval_data), 1, time_index (last (hd bs)),
                 sample_value (hd interval_data)) # map run_of (tl bs)"
  have res: "fst (compress_interval interval_data) = Inr ?rs"
    using assms by (rule compress_interval_split)
  have hd: "hd interval_data = hd b"
    using xs by (metis list.sel(1))
  have cats: "map run_category ?rs = map (\<lambda>b. category_id (hd b)) bs"
    using bs(1) hd by (simp add: run_of_def)
  have uniform: "list_all (\<lambda>r. run_category r = c) ?rs"
    if all: "list_all (\<lambda>x. category_id x = c) interval_data"
  proof -
    have "category_id (hd b') = c" if "b' \<in> set bs" for b'
    proof -
      from that assms(2) have "b' \<noteq> []"
        by (auto simp: maximal_split_def constant_block_def list_all_iff)
      with that have "hd b' \<in> set (concat bs)" by (rule hd_block_in_concat)
      then have "hd b' \<in> set interval_data"
        using assms(2) by (simp only: maximal_split_def)
      with all show ?thesis by (simp add: list_all_iff)
    qed
    then have "list_all (\<lambda>k. k = c) (map (\<lambda>b. category_id (hd b)) bs)"
      by (simp add: list_all_iff)
    then have "list_all (\<lambda>k. k = c) (map run_category ?rs)"
      unfolding cats .
    then show ?thesis
      by (simp only: list_all_iff set_map ball_simps)
  qed
  show ?thesis
    using res cats uniform by (intro exI [of _ ?rs]) blast
qed

text \<open>
  The statement at an input of two categories, where the first block runs across the
  change of category, and at an input of one category.
\<close>

theorem compress_interval_run_category_witness:
  "[(0::int, 1, 5::int), (0, 2, 5), (1, 1, 5), (1, 2, 6)] \<noteq> []
   \<and> maximal_split [(0::int, 1, 5::int), (0, 2, 5), (1, 1, 5), (1, 2, 6)]
        [[(0, 1, 5), (0, 2, 5), (1, 1, 5)], [(1, 2, 6)]]
   \<and> (\<exists>rs. fst (compress_interval [(0::int, 1, 5::int), (0, 2, 5), (1, 1, 5), (1, 2, 6)]) = Inr rs
          \<and> map run_category rs = [0, 1])
   \<and> [(0::int, 1, 5::int), (0, 2, 5), (0, 3, 6)] \<noteq> []
   \<and> maximal_split [(0::int, 1, 5::int), (0, 2, 5), (0, 3, 6)] [[(0, 1, 5), (0, 2, 5)], [(0, 3, 6)]]
   \<and> list_all (\<lambda>x. category_id x = 0) [(0::int, 1, 5::int), (0, 2, 5), (0, 3, 6)]
   \<and> (\<exists>rs. fst (compress_interval [(0::int, 1, 5::int), (0, 2, 5), (0, 3, 6)]) = Inr rs
          \<and> list_all (\<lambda>r. run_category r = 0) rs)"
  using compress_interval_run_category
    [of "[(0::int, 1, 5::int), (0, 2, 5), (1, 1, 5), (1, 2, 6)]"
        "[[(0, 1, 5), (0, 2, 5), (1, 1, 5)], [(1, 2, 6)]]" 0]
    compress_interval_run_category
    [of "[(0::int, 1, 5::int), (0, 2, 5), (0, 3, 6)]" "[[(0, 1, 5), (0, 2, 5)], [(0, 3, 6)]]" 0]
  by (auto simp add: maximal_split_def constant_block_def)

text \<open>
  C7 (as the specification states it) fails: on two samples of category 0 followed by
  two samples of category 1, all of value 5, the whole input is one block and the
  function returns the single run \<open>(0,1,2,5)\<close>. The run covers samples of category 1,
  and the change of category has not ended it.
\<close>

theorem compress_interval_run_category_counterexample:
  "maximal_split [(0::int, 1, 5::int), (0, 2, 5), (1, 1, 5), (1, 2, 5)]
        [[(0, 1, 5), (0, 2, 5), (1, 1, 5), (1, 2, 5)]]
   \<and> fst (compress_interval [(0::int, 1, 5::int), (0, 2, 5), (1, 1, 5), (1, 2, 5)])
        = Inr [(0, 1, 2, 5)]
   \<and> \<not> list_all (\<lambda>x. category_id x = (0::int))
          [(0::int, 1, 5::int), (0, 2, 5), (1, 1, 5), (1, 2, 5)]"
  by (simp add: compress_interval_eval maximal_split_def constant_block_def)

end
